theory Spec2Isabelle
  imports Main
begin

section \<open>Data model\<close>

text \<open>
  The ORM models of \<^verbatim>\<open>app/models\<close>. Python integers are unbounded, so keys and
  versions are \<open>int\<close>. A timestamp is the value of the database clock (\<^verbatim>\<open>func.now()\<close>),
  an integer here. The column \<^verbatim>\<open>id\<close> is written \<open>id_n\<close> (notes) and \<open>id_u\<close> (users),
  since \<open>id\<close> is the identity function of HOL.
\<close>

type_synonym timestamp = int

record Note =
  id_n :: int
  title :: string
  content :: "string option"
  user_id :: int
  version :: int
  created_at :: timestamp
  updated_at :: timestamp

text \<open>
  \<^verbatim>\<open>app/models/user.py\<close> declares the users table; the routers read the columns
  \<^verbatim>\<open>id\<close>, \<^verbatim>\<open>username\<close> and \<^verbatim>\<open>password_hash\<close> of it.
\<close>

record User =
  id_u :: int
  username :: string
  password_hash :: string

text \<open>The database a session sees: the two tables, rows in insertion order.\<close>

record db =
  users_table :: "User list"
  notes_table :: "Note list"

text \<open>
  What the storage layer decides during one request: the reading of its clock, the
  primary key it assigns to an inserted row, and whether \<^verbatim>\<open>db.commit()\<close> goes through.
\<close>

record env =
  now :: timestamp
  assigned_id :: int
  commit_ok :: bool

subsection \<open>Request schemas (\<^verbatim>\<open>app/schemas\<close>)\<close>

record NoteCreate =
  nc_title :: string
  nc_content :: "string option"

record NoteUpdate =
  nu_title :: string
  nu_content :: "string option"
  nu_version :: int

record UserLogin =
  ul_username :: string
  ul_password :: string

record Token =
  access_token :: string
  token_type :: string

subsection \<open>Exceptions and responses\<close>

datatype HTTPException =
  HTTPException (status_code: nat) (detail: string) (headers: "(string \<times> string) list")
    (error_code: "string option")

definition HTTP_400_BAD_REQUEST :: nat where "HTTP_400_BAD_REQUEST = 400"
definition HTTP_401_UNAUTHORIZED :: nat where "HTTP_401_UNAUTHORIZED = 401"
definition HTTP_404_NOT_FOUND :: nat where "HTTP_404_NOT_FOUND = 404"
definition HTTP_409_CONFLICT :: nat where "HTTP_409_CONFLICT = 409"
definition HTTP_500_INTERNAL_SERVER_ERROR :: nat where "HTTP_500_INTERNAL_SERVER_ERROR = 500"

text \<open>The exceptions the note and login handlers raise, as the source writes them.\<close>

definition NotFound :: HTTPException where
  "NotFound = HTTPException HTTP_404_NOT_FOUND ''Note not found'' [] None"

definition VersionConflict :: HTTPException where
  "VersionConflict = HTTPException HTTP_409_CONFLICT
     ''Note was modified by another process. Please refresh and try again.'' [] None"

definition Unauthorized :: HTTPException where
  "Unauthorized = HTTPException HTTP_401_UNAUTHORIZED ''Incorrect username or password''
     [(''WWW-Authenticate'', ''Bearer'')] None"

definition failed_to :: "string \<Rightarrow> HTTPException" where
  "failed_to what = HTTPException HTTP_500_INTERNAL_SERVER_ERROR (''Failed to '' @ what) [] None"

section \<open>The note handlers (\<^verbatim>\<open>app/routers/notes.py\<close>)\<close>

text \<open>
  \<^verbatim>\<open>db.query(Note).filter(Note.id == note_id, Note.user_id == current_user.id).first()\<close>
\<close>

definition query_note :: "db \<Rightarrow> int \<Rightarrow> User \<Rightarrow> Note option" where
  "query_note d note_id current_user =
     find (\<lambda>n. id_n n = note_id \<and> user_id n = id_u current_user) (notes_table d)"

text \<open>
  \<^verbatim>\<open>create_note\<close>: the row gets the key the storage layer assigns, the column default
  \<open>version = 1\<close> and both timestamps from the server default. A key that is already in
  the table, or a commit that fails, raises inside the \<^verbatim>\<open>try\<close>; the handler rolls
  back and answers 500.
\<close>

definition create_note :: "env \<Rightarrow> db \<Rightarrow> NoteCreate \<Rightarrow> User \<Rightarrow> db \<times> (HTTPException + Note)" where
  "create_note e d note_data current_user =
     (let db_note = \<lparr>id_n = assigned_id e, title = nc_title note_data,
                      content = nc_content note_data, user_id = id_u current_user,
                      version = 1, created_at = now e, updated_at = now e\<rparr>
      in if commit_ok e \<and> assigned_id e \<notin> set (map id_n (notes_table d))
         then (d\<lparr>notes_table := notes_table d @ [db_note]\<rparr>, Inr db_note)
         else (d, Inl (failed_to ''create note'')))"

definition get_user_notes :: "db \<Rightarrow> User \<Rightarrow> Note list" where
  "get_user_notes d current_user = filter (\<lambda>n. user_id n = id_u current_user) (notes_table d)"

definition get_note :: "db \<Rightarrow> int \<Rightarrow> User \<Rightarrow> HTTPException + Note" where
  "get_note d note_id current_user =
     (case query_note d note_id current_user of
        None \<Rightarrow> Inl NotFound
      | Some note \<Rightarrow> Inr note)"

text \<open>
  \<^verbatim>\<open>update_note\<close>: fetch scoped by id and owner, compare the versions, then assign the
  fields, add one to the version and commit. The commit writes the row with the note's
  primary key; \<^verbatim>\<open>onupdate=func.now()\<close> refreshes \<open>updated_at\<close>.
\<close>

definition update_note :: "env \<Rightarrow> db \<Rightarrow> int \<Rightarrow> NoteUpdate \<Rightarrow> User \<Rightarrow> db \<times> (HTTPException + Note)" where
  "update_note e d note_id note_update current_user =
     (case query_note d note_id current_user of
        None \<Rightarrow> (d, Inl NotFound)
      | Some note \<Rightarrow>
          if version note \<noteq> nu_version note_update then (d, Inl VersionConflict)
          else if commit_ok e then
            (let note' = note\<lparr>title := nu_title note_update, content := nu_content note_update,
                               version := version note + 1, updated_at := now e\<rparr>
             in (d\<lparr>notes_table := map (\<lambda>r. if id_n r = id_n note then note' else r) (notes_table d)\<rparr>,
                 Inr note'))
          else (d, Inl (failed_to ''update note'')))"

text \<open>
  The handler talks to the store twice: the query on entry reads the row into the
  session, and \<^verbatim>\<open>db.commit()\<close> writes the session's copy of the row back under its
  primary key. \<open>update_note_fetch\<close> is the handler up to and including the version test,
  on the database as it is at the query; \<open>update_note_commit\<close> is the \<^verbatim>\<open>try\<close> block, on
  the database as it is at the commit, with the note the session read. A row that is no
  longer there makes the write fail like any other commit error.
\<close>

definition update_note_fetch :: "db \<Rightarrow> int \<Rightarrow> NoteUpdate \<Rightarrow> User \<Rightarrow> HTTPException + Note" where
  "update_note_fetch d note_id note_update current_user =
     (case query_note d note_id current_user of
        None \<Rightarrow> Inl NotFound
      | Some note \<Rightarrow>
          if version note \<noteq> nu_version note_update then Inl VersionConflict
          else Inr note)"

definition update_note_commit :: "env \<Rightarrow> db \<Rightarrow> Note \<Rightarrow> NoteUpdate \<Rightarrow> db \<times> (HTTPException + Note)" where
  "update_note_commit e d note note_update =
     (if commit_ok e \<and> id_n note \<in> set (map id_n (notes_table d)) then
        (let note' = note\<lparr>title := nu_title note_update, content := nu_content note_update,
                           version := version note + 1, updated_at := now e\<rparr>
         in (d\<lparr>notes_table := map (\<lambda>r. if id_n r = id_n note then note' else r) (notes_table d)\<rparr>,
             Inr note'))
      else (d, Inl (failed_to ''update note'')))"

definition update_note_finish ::
  "env \<Rightarrow> db \<Rightarrow> HTTPException + Note \<Rightarrow> NoteUpdate \<Rightarrow> db \<times> (HTTPException + Note)" where
  "update_note_finish e d fetched note_update =
     (case fetched of
        Inl exc \<Rightarrow> (d, Inl exc)
      | Inr note \<Rightarrow> update_note_commit e d note note_update)"

definition delete_note :: "env \<Rightarrow> db \<Rightarrow> int \<Rightarrow> User \<Rightarrow> db \<times> (HTTPException + string)" where
  "delete_note e d note_id current_user =
     (case query_note d note_id current_user of
        None \<Rightarrow> (d, Inl NotFound)
      | Some note \<Rightarrow>
          if commit_ok e then
            (d\<lparr>notes_table := filter (\<lambda>r. id_n r \<noteq> id_n note) (notes_table d)\<rparr>,
             Inr ''Note deleted successfully'')
          else (d, Inl (failed_to ''delete note'')))"

section \<open>Request validation (\<^verbatim>\<open>app/schemas/note.py\<close>)\<close>

text \<open>
  A JSON request body, as the schema classes see it: each declared key is absent
  (\<open>None\<close>) or present with a value of its declared JSON type; \<open>content\<close> may also be
  present as \<^verbatim>\<open>null\<close> (\<open>Some None\<close>). Keys that a schema class does not declare are
  kept as text in \<open>extra_fields\<close>; no schema class reads them.
\<close>

record body =
  title_field :: "string option"
  content_field :: "string option option"
  version_field :: "int option"
  extra_fields :: "(string \<times> string) list"

text \<open>
  The kinds of validation error the declared constraints can produce. The schema library
  words the message of each; the model keeps the kind and the location.
\<close>

datatype error_kind = missing | string_too_short | string_too_long

type_synonym validation_error = "string list \<times> error_kind"

text \<open>\<^verbatim>\<open>title: str = Field(..., min_length=1, max_length=200)\<close>\<close>

definition validate_title :: "string option \<Rightarrow> validation_error list + string" where
  "validate_title t =
     (case t of
        None \<Rightarrow> Inl [([''body'', ''title''], missing)]
      | Some s \<Rightarrow>
          if length s < 1 then Inl [([''body'', ''title''], string_too_short)]
          else if length s > 200 then Inl [([''body'', ''title''], string_too_long)]
          else Inr s)"

text \<open>\<^verbatim>\<open>content: Optional[str] = Field(None)\<close>: an absent key takes the default.\<close>

definition validate_content :: "string option option \<Rightarrow> string option" where
  "validate_content c = (case c of None \<Rightarrow> None | Some v \<Rightarrow> v)"

text \<open>\<^verbatim>\<open>version: int = Field(...)\<close>\<close>

definition validate_version :: "int option \<Rightarrow> validation_error list + int" where
  "validate_version v =
     (case v of
        None \<Rightarrow> Inl [([''body'', ''version''], missing)]
      | Some n \<Rightarrow> Inr n)"

definition NoteCreate_validate :: "body \<Rightarrow> validation_error list + NoteCreate" where
  "NoteCreate_validate b =
     (case validate_title (title_field b) of
        Inl errs \<Rightarrow> Inl errs
      | Inr t \<Rightarrow> Inr \<lparr>nc_title = t, nc_content = validate_content (content_field b)\<rparr>)"

text \<open>The errors of all fields are collected, in the order of declaration.\<close>

definition NoteUpdate_validate :: "body \<Rightarrow> validation_error list + NoteUpdate" where
  "NoteUpdate_validate b =
     (case (validate_title (title_field b), validate_version (version_field b)) of
        (Inr t, Inr v) \<Rightarrow>
          Inr \<lparr>nu_title = t, nu_content = validate_content (content_field b), nu_version = v\<rparr>
      | (Inl errs, Inr v) \<Rightarrow> Inl errs
      | (Inr t, Inl errs) \<Rightarrow> Inl errs
      | (Inl errs, Inl errs') \<Rightarrow> Inl (errs @ errs'))"

section \<open>Exception handlers (\<^verbatim>\<open>app/exceptions.py\<close>) and routes (\<^verbatim>\<open>app/main.py\<close>)\<close>

datatype JSONContent =
    ErrorContent (err_detail: string) (err_code: "string option")
      (err_errors: "(string \<times> error_kind) list option")
  | NoteContent Note
  | NotesContent "Note list"
  | MessageContent string
  | TokenContent Token

datatype JSONResponse = JSONResponse (status: nat) (payload: JSONContent)

text \<open>\<^verbatim>\<open>" -> ".join(str(x) for x in error["loc"])\<close>\<close>

fun join :: "string \<Rightarrow> string list \<Rightarrow> string" where
  "join sep [] = []"
| "join sep [x] = x"
| "join sep (x # y # ys) = x @ sep @ join sep (y # ys)"

definition http_exception_handler :: "HTTPException \<Rightarrow> JSONResponse" where
  "http_exception_handler exc =
     JSONResponse (status_code exc)
       (ErrorContent (detail exc)
          (case error_code exc of
             None \<Rightarrow> None
           | Some c \<Rightarrow> if c \<noteq> [] then Some c else None)
          None)"

definition validation_exception_handler :: "validation_error list \<Rightarrow> JSONResponse" where
  "validation_exception_handler errs =
     JSONResponse HTTP_400_BAD_REQUEST
       (ErrorContent ''Validation error'' (Some ''VALIDATION_ERROR'')
          (Some (map (\<lambda>(loc, k). (join '' -> '' loc, k)) errs)))"

text \<open>
  What the framework does around a handler, as \<^verbatim>\<open>app/main.py\<close> and the route
  decorators configure it: the body is validated against the schema class before the
  handler is called, a \<^verbatim>\<open>RequestValidationError\<close> goes to
  \<open>validation_exception_handler\<close>, an \<^verbatim>\<open>HTTPException\<close> to
  \<open>http_exception_handler\<close>, and a returned value is sent with the status code of the
  decorator. The caller is already authenticated (\<^verbatim>\<open>get_current_user\<close>).
\<close>

definition respond :: "nat \<Rightarrow> ('a \<Rightarrow> JSONContent) \<Rightarrow> HTTPException + 'a \<Rightarrow> JSONResponse" where
  "respond ok render r =
     (case r of Inl exc \<Rightarrow> http_exception_handler exc | Inr x \<Rightarrow> JSONResponse ok (render x))"

definition route_create_note :: "env \<Rightarrow> db \<Rightarrow> User \<Rightarrow> body \<Rightarrow> db \<times> JSONResponse" where
  "route_create_note e d current_user b =
     (case NoteCreate_validate b of
        Inl errs \<Rightarrow> (d, validation_exception_handler errs)
      | Inr note_data \<Rightarrow>
          (case create_note e d note_data current_user of
             (d', r) \<Rightarrow> (d', respond 201 NoteContent r)))"

definition route_get_user_notes :: "db \<Rightarrow> User \<Rightarrow> JSONResponse" where
  "route_get_user_notes d current_user = JSONResponse 200 (NotesContent (get_user_notes d current_user))"

definition route_get_note :: "db \<Rightarrow> int \<Rightarrow> User \<Rightarrow> JSONResponse" where
  "route_get_note d note_id current_user = respond 200 NoteContent (get_note d note_id current_user)"

definition route_update_note :: "env \<Rightarrow> db \<Rightarrow> int \<Rightarrow> User \<Rightarrow> body \<Rightarrow> db \<times> JSONResponse" where
  "route_update_note e d note_id current_user b =
     (case NoteUpdate_validate b of
        Inl errs \<Rightarrow> (d, validation_exception_handler errs)
      | Inr note_update \<Rightarrow>
          (case update_note e d note_id note_update current_user of
             (d', r) \<Rightarrow> (d', respond 200 NoteContent r)))"

definition route_delete_note :: "env \<Rightarrow> db \<Rightarrow> int \<Rightarrow> User \<Rightarrow> db \<times> JSONResponse" where
  "route_delete_note e d note_id current_user =
     (case delete_note e d note_id current_user of
        (d', r) \<Rightarrow> (d', respond 200 MessageContent r))"

section \<open>Login (\<^verbatim>\<open>app/routers/auth.py\<close>)\<close>

text \<open>
  \<^verbatim>\<open>verify_password\<close> and \<^verbatim>\<open>create_access_token\<close> come from
  \<^verbatim>\<open>app/services/auth.py\<close>; \<open>login_user\<close> takes them as parameters.
\<close>

definition login_user ::
  "(string \<Rightarrow> string \<Rightarrow> bool) \<Rightarrow> (int \<Rightarrow> string \<Rightarrow> string) \<Rightarrow> db \<Rightarrow> UserLogin
   \<Rightarrow> HTTPException + Token" where
  "login_user verify_password create_access_token d user_credentials =
     (case find (\<lambda>u. username u = ul_username user_credentials) (users_table d) of
        None \<Rightarrow> Inl Unauthorized
      | Some user \<Rightarrow>
          if \<not> verify_password (ul_password user_credentials) (password_hash user)
          then Inl Unauthorized
          else Inr \<lparr>access_token = create_access_token (id_u user) (username user),
                    token_type = ''bearer''\<rparr>)"

definition route_login_user ::
  "(string \<Rightarrow> string \<Rightarrow> bool) \<Rightarrow> (int \<Rightarrow> string \<Rightarrow> string) \<Rightarrow> db \<Rightarrow> UserLogin
   \<Rightarrow> JSONResponse" where
  "route_login_user verify_password create_access_token d user_credentials =
     respond 200 TokenContent (login_user verify_password create_access_token d user_credentials)"

section \<open>Sequences of requests\<close>

text \<open>The primary key constraint of the notes table.\<close>

definition wf_db :: "db \<Rightarrow> bool" where
  "wf_db d = distinct (map id_n (notes_table d))"

text \<open>The stored row with a given primary key, whoever owns it.\<close>

definition stored :: "db \<Rightarrow> int \<Rightarrow> Note option" where
  "stored d k = find (\<lambda>n. id_n n = k) (notes_table d)"

datatype request =
    Create env User NoteCreate
  | ListNotes User
  | Get User int
  | Update env User int NoteUpdate
  | Delete env User int

text \<open>The state of the database after one request, and after a list of them in order.\<close>

fun step :: "db \<Rightarrow> request \<Rightarrow> db" where
  "step d (Create e u note_data) = fst (create_note e d note_data u)"
| "step d (ListNotes u) = d"
| "step d (Get u k) = d"
| "step d (Update e u k note_update) = fst (update_note e d k note_update u)"
| "step d (Delete e u k) = fst (delete_note e d k u)"

fun run :: "db \<Rightarrow> request list \<Rightarrow> db" where
  "run d [] = d"
| "run d (r # rs) = run (step d r) rs"

text \<open>A request that inserts a row under the key \<open>k\<close>.\<close>

fun creates_key :: "int \<Rightarrow> request \<Rightarrow> bool" where
  "creates_key k (Create e u note_data) = (assigned_id e = k)"
| "creates_key k _ = False"

text \<open>
  A client that updates one note repeatedly, each time presenting the version that the
  previous call returned, and that stops at the first failure. Each element of the list
  is the new title and content of one call, with what the storage layer decides there.
\<close>

fun update_chain ::
  "db \<Rightarrow> User \<Rightarrow> int \<Rightarrow> int \<Rightarrow> (env \<times> string \<times> string option) list
   \<Rightarrow> db \<times> (HTTPException + Note) list" where
  "update_chain d u k v [] = (d, [])"
| "update_chain d u k v ((e, t, c) # ps) =
     (case update_note e d k \<lparr>nu_title = t, nu_content = c, nu_version = v\<rparr> u of
        (d', Inl exc) \<Rightarrow> (d', [Inl exc])
      | (d', Inr note) \<Rightarrow>
          (case update_chain d' u k (version note) ps of
             (d'', rs) \<Rightarrow> (d'', Inr note # rs)))"

text \<open>
  Two update requests \<open>A\<close> and \<open>B\<close> for the same note that overlap in time: both queries
  run before either commit, then \<open>A\<close> commits, then \<open>B\<close>. The result is the final database
  and the two handlers' results.
\<close>

definition interleaved_updates ::
  "env \<Rightarrow> env \<Rightarrow> db \<Rightarrow> int \<Rightarrow> User \<Rightarrow> NoteUpdate \<Rightarrow> NoteUpdate
   \<Rightarrow> db \<times> (HTTPException + Note) \<times> (HTTPException + Note)" where
  "interleaved_updates eA eB d note_id current_user updA updB =
     (let fetchedA = update_note_fetch d note_id updA current_user;
          fetchedB = update_note_fetch d note_id updB current_user
      in case update_note_finish eA d fetchedA updA of
           (dA, resultA) \<Rightarrow>
             (case update_note_finish eB dA fetchedB updB of
                (dB, resultB) \<Rightarrow> (dB, resultA, resultB)))"

section \<open>A small database for concrete runs\<close>

definition alice :: User where
  "alice = \<lparr>id_u = 1, username = ''alice'', password_hash = ''hash-of-secret1''\<rparr>"

definition bob :: User where
  "bob = \<lparr>id_u = 2, username = ''bob'', password_hash = ''hash-of-secret2''\<rparr>"

definition note_x :: Note where
  "note_x = \<lparr>id_n = 1, title = ''x'', content = Some ''y'', user_id = 1, version = 1,
              created_at = 10, updated_at = 10\<rparr>"

definition db_x :: db where
  "db_x = \<lparr>users_table = [alice, bob], notes_table = [note_x]\<rparr>"

definition db_empty :: db where
  "db_empty = \<lparr>users_table = [alice, bob], notes_table = []\<rparr>"

definition env_at :: "timestamp \<Rightarrow> int \<Rightarrow> env" where
  "env_at t k = \<lparr>now = t, assigned_id = k, commit_ok = True\<rparr>"

text \<open>A password check that accepts exactly the hash written as \<open>hash-of-\<close> the password.\<close>

definition verify_example :: "string \<Rightarrow> string \<Rightarrow> bool" where
  "verify_example plain hashed = (hashed = ''hash-of-'' @ plain)"

definition token_example :: "int \<Rightarrow> string \<Rightarrow> string" where
  "token_example uid name = ''token-'' @ name"

section \<open>Basic facts\<close>

lemmas example_defs = alice_def bob_def note_x_def db_x_def db_empty_def env_at_def
  verify_example_def token_example_def

lemmas handler_defs = http_exception_handler_def validation_exception_handler_def respond_def
  HTTP_400_BAD_REQUEST_def HTTP_401_UNAUTHORIZED_def HTTP_404_NOT_FOUND_def HTTP_409_CONFLICT_def
  HTTP_500_INTERNAL_SERVER_ERROR_def NotFound_def VersionConflict_def Unauthorized_def failed_to_def

lemmas validate_defs = NoteCreate_validate_def NoteUpdate_validate_def validate_title_def
  validate_content_def validate_version_def

subsection \<open>Looking rows up\<close>

lemma find_map_replace:
  assumes "find P xs = Some old" "P new" "Q old"
  shows "find P (map (\<lambda>r. if Q r then new else r) xs) = Some new"
  using assms by (induction xs) (auto split: if_splits)

lemma find_map_same:
  assumes "\<And>r. r \<in> set xs \<Longrightarrow> P (f r) = P r" "\<And>r. r \<in> set xs \<Longrightarrow> P r \<Longrightarrow> f r = r"
  shows "find P (map f xs) = find P xs"
  using assms by (induction xs) auto

lemma find_filter_keep:
  assumes "\<And>r. r \<in> set xs \<Longrightarrow> P r \<Longrightarrow> Q r"
  shows "find P (filter Q xs) = find P xs"
  using assms by (induction xs) auto

lemma find_snoc:
  "find P (xs @ [n]) = (case find P xs of Some x \<Rightarrow> Some x | None \<Rightarrow> if P n then Some n else None)"
  by (induction xs) auto

lemma find_append_fresh:
  assumes "\<forall>x \<in> set xs. \<not> P x" "P n"
  shows "find P (xs @ [n]) = Some n"
  using assms by (induction xs) auto

lemma query_note_Some:
  "query_note d k u = Some n \<Longrightarrow> n \<in> set (notes_table d) \<and> id_n n = k \<and> user_id n = id_u u"
  unfolding query_note_def by (auto simp: find_Some_iff)

lemma stored_None_iff: "stored d k = None \<longleftrightarrow> k \<notin> set (map id_n (notes_table d))"
  unfolding stored_def by (auto simp: find_None_iff)

lemma stored_Some:
  "stored d k = Some a \<Longrightarrow> a \<in> set (notes_table d) \<and> id_n a = k"
  unfolding stored_def by (auto simp: find_Some_iff)

lemma query_note_None_absent:
  "stored d k = None \<Longrightarrow> query_note d k u = None"
  unfolding stored_def query_note_def by (auto simp: find_None_iff)

lemma wf_unique:
  assumes "wf_db d" "a \<in> set (notes_table d)" "b \<in> set (notes_table d)" "id_n a = id_n b"
  shows "a = b"
  using assms unfolding wf_db_def by (meson distinct_map inj_onD)

lemma query_note_other_owner:
  assumes "wf_db d" "a \<in> set (notes_table d)" "user_id a \<noteq> id_u u"
  shows "query_note d (id_n a) u = None"
proof -
  have "\<And>n. n \<in> set (notes_table d) \<Longrightarrow> id_n n = id_n a \<Longrightarrow> n = a"
    using assms(1,2) by (blast intro: wf_unique)
  then show ?thesis using assms(3) unfolding query_note_def by (auto simp: find_None_iff)
qed

subsection \<open>What each handler does when it succeeds, and when the note is not found\<close>

lemma not_found_of_query_None:
  assumes "query_note d k u = None"
  shows "get_note d k u = Inl NotFound"
    and "update_note e d k upd u = (d, Inl NotFound)"
    and "delete_note e d k u = (d, Inl NotFound)"
  using assms by (simp_all add: get_note_def update_note_def delete_note_def)

lemma route_update_not_found:
  assumes "query_note d k u = None"
  shows "route_update_note e d k u b =
    (d, case NoteUpdate_validate b of Inl errs \<Rightarrow> validation_exception_handler errs
        | Inr upd \<Rightarrow> http_exception_handler NotFound)"
  using assms by (simp add: route_update_note_def update_note_def respond_def split: sum.splits)

lemma create_note_Inr:
  assumes "create_note e d note_data u = (d', Inr n)"
  shows "n = \<lparr>id_n = assigned_id e, title = nc_title note_data, content = nc_content note_data,
              user_id = id_u u, version = 1, created_at = now e, updated_at = now e\<rparr>
      \<and> d' = d\<lparr>notes_table := notes_table d @ [n]\<rparr> \<and> commit_ok e
      \<and> assigned_id e \<notin> set (map id_n (notes_table d))"
  using assms unfolding create_note_def by (auto simp: Let_def split: if_splits)

lemma create_then_query:
  assumes "create_note e d note_data u = (d', Inr n)"
  shows "query_note d' (id_n n) u = Some n \<and> stored d' (id_n n) = Some n"
proof -
  from create_note_Inr[OF assms] have n: "id_n n = assigned_id e" "user_id n = id_u u"
    and d': "notes_table d' = notes_table d @ [n]"
    and fresh: "assigned_id e \<notin> set (map id_n (notes_table d))" by auto
  from fresh n have "\<forall>x \<in> set (notes_table d). id_n x \<noteq> id_n n" by force
  then show ?thesis unfolding query_note_def stored_def d'
    using n by (auto intro!: find_append_fresh)
qed

lemma update_note_Inr:
  assumes "update_note e d k upd u = (d', Inr m)"
  shows "\<exists>old. query_note d k u = Some old \<and> version old = nu_version upd \<and> commit_ok e
      \<and> m = old\<lparr>title := nu_title upd, content := nu_content upd,
                 version := version old + 1, updated_at := now e\<rparr>
      \<and> notes_table d' = map (\<lambda>r. if id_n r = id_n old then m else r) (notes_table d)
      \<and> id_n m = id_n old \<and> user_id m = user_id old \<and> version m = version old + 1"
  using assms unfolding update_note_def by (auto split: option.splits if_splits simp: Let_def)

lemma update_note_ok:
  assumes "query_note d k u = Some old" "nu_version upd = version old" "commit_ok e"
  shows "\<exists>d' m. update_note e d k upd u = (d', Inr m) \<and> version m = version old + 1
      \<and> title m = nu_title upd \<and> content m = nu_content upd
      \<and> query_note d' k u = Some m"
proof -
  let ?m = "old\<lparr>title := nu_title upd, content := nu_content upd,
                 version := version old + 1, updated_at := now e\<rparr>"
  let ?d' = "d\<lparr>notes_table := map (\<lambda>r. if id_n r = id_n old then ?m else r) (notes_table d)\<rparr>"
  have old: "id_n old = k" "user_id old = id_u u"
    using query_note_Some[OF assms(1)] by auto
  have u: "update_note e d k upd u = (?d', Inr ?m)"
    using assms unfolding update_note_def by (simp add: Let_def)
  have "find (\<lambda>n. id_n n = k \<and> user_id n = id_u u)
          (map (\<lambda>r. if id_n r = id_n old then ?m else r) (notes_table d)) = Some ?m"
    by (rule find_map_replace[where old = old]) (use assms(1) old in \<open>auto simp: query_note_def\<close>)
  then have "query_note ?d' k u = Some ?m" by (simp add: query_note_def)
  with u show ?thesis by simp
qed

lemma delete_note_Inr:
  assumes "delete_note e d k u = (d', Inr msg)"
  shows "\<exists>old. query_note d k u = Some old \<and> commit_ok e \<and> msg = ''Note deleted successfully''
      \<and> d' = d\<lparr>notes_table := filter (\<lambda>r. id_n r \<noteq> k) (notes_table d)\<rparr>"
  using assms unfolding delete_note_def
  by (auto split: option.splits if_splits dest: query_note_Some)

subsection \<open>One request, and a list of requests\<close>

lemma step_cases:
  "step d r = d
   \<or> (\<exists>e u nd n. r = Create e u nd \<and> create_note e d nd u = (step d r, Inr n))
   \<or> (\<exists>e u k upd m. r = Update e u k upd \<and> update_note e d k upd u = (step d r, Inr m))
   \<or> (\<exists>e u k msg. r = Delete e u k \<and> delete_note e d k u = (step d r, Inr msg))"
proof (cases r)
  case (Create e u nd)
  then show ?thesis by (auto simp: create_note_def Let_def)
next
  case (Update e u k upd)
  then show ?thesis by (auto simp: update_note_def Let_def split: option.splits)
next
  case (Delete e u k)
  then show ?thesis by (auto simp: delete_note_def split: option.splits)
qed simp_all

lemma update_keeps_keys:
  assumes "update_note e d k upd u = (d', Inr m)"
  shows "map id_n (notes_table d') = map id_n (notes_table d)"
proof -
  from update_note_Inr[OF assms] obtain old :: Note where
    m: "id_n m = id_n old"
    and d': "notes_table d' = map (\<lambda>r. if id_n r = id_n old then m else r) (notes_table d)"
    by blast
  show ?thesis unfolding d' using m by (induction "notes_table d") auto
qed

lemma wf_step: "wf_db d \<Longrightarrow> wf_db (step d r)"
proof -
  assume wf: "wf_db d"
  consider (same) "step d r = d"
    | (cr) e u nd n where "r = Create e u nd" "create_note e d nd u = (step d r, Inr n)"
    | (up) e u k upd m where "r = Update e u k upd" "update_note e d k upd u = (step d r, Inr m)"
    | (de) e u k msg where "r = Delete e u k" "delete_note e d k u = (step d r, Inr msg)"
    using step_cases[of d r] by blast
  then show ?thesis
  proof cases
    case same
    then show ?thesis using wf by simp
  next
    case cr
    from create_note_Inr[OF cr(2)] wf show ?thesis
      unfolding wf_db_def by auto
  next
    case up
    from update_keeps_keys[OF up(2)] wf show ?thesis unfolding wf_db_def by simp
  next
    case de
    from delete_note_Inr[OF de(2)] wf show ?thesis
      unfolding wf_db_def by (auto simp: distinct_map_filter)
  qed
qed

lemma wf_run: "wf_db d \<Longrightarrow> wf_db (run d rs)"
  by (induction rs arbitrary: d) (auto simp: wf_step)

lemma stored_step_absent:
  assumes "stored d k = None" "\<not> creates_key k r"
  shows "stored (step d r) k = None"
proof -
  consider (same) "step d r = d"
    | (cr) e u nd n where "r = Create e u nd" "create_note e d nd u = (step d r, Inr n)"
    | (up) e u k upd m where "r = Update e u k upd" "update_note e d k upd u = (step d r, Inr m)"
    | (de) e u k msg where "r = Delete e u k" "delete_note e d k u = (step d r, Inr msg)"
    using step_cases[of d r] by blast
  then show ?thesis
  proof cases
    case same
    then show ?thesis using assms by simp
  next
    case cr
    from create_note_Inr[OF cr(2)] assms cr(1) show ?thesis
      by (auto simp: stored_None_iff)
  next
    case up
    from update_keeps_keys[OF up(2)] assms show ?thesis by (simp add: stored_None_iff)
  next
    case de
    from delete_note_Inr[OF de(2)] assms show ?thesis
      by (auto simp: stored_None_iff)
  qed
qed

lemma stored_run_absent:
  assumes "stored d k = None" "\<forall>r \<in> set rs. \<not> creates_key k r"
  shows "stored (run d rs) k = None"
  using assms by (induction rs arbitrary: d) (auto simp: stored_step_absent)

lemma stored_step_version:
  assumes "wf_db d" "stored d k = Some a" "stored (step d r) k = Some b"
  shows "version b = version a \<or> version b = version a + 1"
proof -
  have a: "a \<in> set (notes_table d)" "id_n a = k" using stored_Some[OF assms(2)] by auto
  consider (same) "step d r = d"
    | (cr) e u nd n where "r = Create e u nd" "create_note e d nd u = (step d r, Inr n)"
    | (up) e u k' upd m where "r = Update e u k' upd" "update_note e d k' upd u = (step d r, Inr m)"
    | (de) e u k' msg where "r = Delete e u k'" "delete_note e d k' u = (step d r, Inr msg)"
    using step_cases[of d r] by blast
  then show ?thesis
  proof cases
    case same
    then show ?thesis using assms by simp
  next
    case cr
    from create_note_Inr[OF cr(2)] have "notes_table (step d r) = notes_table d @ [n]" by simp
    then have "stored (step d r) k = Some a"
      using assms(2) unfolding stored_def by (simp add: find_snoc)
    then show ?thesis using assms(3) by simp
  next
    case up
    from update_note_Inr[OF up(2)] obtain old :: Note where
      q: "query_note d k' u = Some old" and vm: "version m = version old + 1"
      and m: "id_n m = id_n old"
      and d': "notes_table (step d r) = map (\<lambda>r. if id_n r = id_n old then m else r) (notes_table d)"
      by blast
    have old: "old \<in> set (notes_table d)" "id_n old = k'" using query_note_Some[OF q] by auto
    show ?thesis
    proof (cases "k' = k")
      case True
      then have "old = a" using wf_unique[OF assms(1) old(1) a(1)] old a by simp
      moreover have "stored (step d r) k = Some m"
        unfolding stored_def d'
        by (rule find_map_replace[where old = a])
          (use assms(2) a old m True in \<open>auto simp: stored_def\<close>)
      ultimately show ?thesis using assms(3) vm by simp
    next
      case False
      have "stored (step d r) k = stored d k"
        unfolding stored_def d'
        by (rule find_map_same) (use False old m in auto)
      then show ?thesis using assms by simp
    qed
  next
    case de
    from delete_note_Inr[OF de(2)] have
      d': "notes_table (step d r) = filter (\<lambda>r. id_n r \<noteq> k') (notes_table d)" by auto
    show ?thesis
    proof (cases "k' = k")
      case True
      then have "stored (step d r) k = None" unfolding stored_None_iff d' by auto
      then show ?thesis using assms(3) by simp
    next
      case False
      have "stored (step d r) k = stored d k"
        unfolding stored_def d' by (rule find_filter_keep) (use False in auto)
      then show ?thesis using assms by simp
    qed
  qed
qed

lemma stored_run_version:
  assumes "wf_db d" "stored d k = Some a" "\<forall>r \<in> set rs. \<not> creates_key k r"
    "stored (run d rs) k = Some b"
  shows "version a \<le> version b \<and> version b \<le> version a + int (length rs)"
  using assms
proof (induction rs arbitrary: d a)
  case Nil
  then show ?case by simp
next
  case (Cons r rs)
  show ?case
  proof (cases "stored (step d r) k")
    case None
    then have "stored (run (step d r) rs) k = None"
      using Cons.prems(3) by (intro stored_run_absent) auto
    then show ?thesis using Cons.prems(4) by simp
  next
    case (Some a')
    have v: "version a' = version a \<or> version a' = version a + 1"
      using stored_step_version[OF Cons.prems(1,2) Some] .
    have "version a' \<le> version b \<and> version b \<le> version a' + int (length rs)"
      using Cons.IH[OF wf_step[OF Cons.prems(1)] Some] Cons.prems(3,4) by simp
    then show ?thesis using v by auto
  qed
qed

lemma update_chain_succeeds:
  assumes "query_note d k u = Some old" "\<forall>p \<in> set ps. commit_ok (fst p)"
  shows "\<exists>d' rs. update_chain d u k (version old) ps = (d', rs) \<and> length rs = length ps
      \<and> (\<forall>i < length ps. \<exists>m. rs ! i = Inr m \<and> version m = version old + int i + 1)
      \<and> (\<exists>m. query_note d' k u = Some m \<and> version m = version old + int (length ps))"
  using assms
proof (induction ps arbitrary: d old)
  case Nil
  then show ?case by simp
next
  case (Cons p ps)
  obtain e t c where p: "p = (e, t, c)" by (cases p)
  let ?upd = "\<lparr>nu_title = t, nu_content = c, nu_version = version old\<rparr>"
  from Cons.prems p have ok: "commit_ok e" by simp
  obtain d1 m where u: "update_note e d k ?upd u = (d1, Inr m)"
    and vm: "version m = version old + 1" and q1: "query_note d1 k u = Some m"
    using update_note_ok[OF Cons.prems(1) _ ok, of ?upd] by auto
  from Cons.prems(2) have rest: "\<forall>p \<in> set ps. commit_ok (fst p)" by simp
  obtain d2 rs where ch: "update_chain d1 u k (version m) ps = (d2, rs)"
    and len: "length rs = length ps"
    and each: "\<forall>i < length ps. \<exists>m'. rs ! i = Inr m' \<and> version m' = version m + int i + 1"
    and fin: "\<exists>m'. query_note d2 k u = Some m' \<and> version m' = version m + int (length ps)"
    using Cons.IH[OF q1 rest] by blast
  have eq: "update_chain d u k (version old) (p # ps) = (d2, Inr m # rs)"
    using u ch p by simp
  have each': "\<forall>i < length (p # ps). \<exists>m'. (Inr m # rs) ! i = Inr m' \<and> version m' = version old + int i + 1"
  proof (intro allI impI)
    fix i assume i: "i < length (p # ps)"
    show "\<exists>m'. (Inr m # rs) ! i = Inr m' \<and> version m' = version old + int i + 1"
    proof (cases i)
      case 0
      then show ?thesis using vm by simp
    next
      case (Suc j)
      with i have "j < length ps" by simp
      with each obtain m' where "rs ! j = Inr m'" "version m' = version m + int j + 1" by blast
      then show ?thesis using Suc vm by simp
    qed
  qed
  from fin vm have fin': "\<exists>m'. query_note d2 k u = Some m' \<and> version m' = version old + int (length (p # ps))"
    by auto
  show ?case using eq len each' fin' by simp
qed

section \<open>Two updates presenting the same version\<close>

text \<open>
  Run without anything in between, the two halves of the handler are the handler.
\<close>

lemma sequential_is_update_note:
  "update_note e d note_id note_update current_user
     = update_note_finish e d (update_note_fetch d note_id note_update current_user) note_update"
proof (cases "query_note d note_id current_user")
  case None
  then show ?thesis
    by (simp add: update_note_def update_note_fetch_def update_note_finish_def)
next
  case (Some found)
  then have "id_n found \<in> set (map id_n (notes_table d))"
    using query_note_Some[OF Some] by auto
  with Some show ?thesis
    by (simp add: update_note_def update_note_fetch_def update_note_finish_def
        update_note_commit_def)
qed

text \<open>
  When both queries run before either commit, both requests pass the version test on the
  same stored version, both commits go through, both results carry that version plus one,
  and the stored note is the second writer's.
\<close>

lemma interleaved_updates_both_succeed:
  assumes "query_note d k u = Some note"
    and "nu_version updA = version note" and "nu_version updB = version note"
    and "commit_ok eA" and "commit_ok eB"
  shows "\<exists>dB nA nB. interleaved_updates eA eB d k u updA updB = (dB, Inr nA, Inr nB)
    \<and> version nA = version note + 1 \<and> version nB = version note + 1
    \<and> title nA = nu_title updA \<and> content nA = nu_content updA
    \<and> query_note dB k u = Some nB
    \<and> title nB = nu_title updB \<and> content nB = nu_content updB"
proof -
  let ?nA = "note\<lparr>title := nu_title updA, content := nu_content updA,
                  version := version note + 1, updated_at := now eA\<rparr>"
  let ?nB = "note\<lparr>title := nu_title updB, content := nu_content updB,
                  version := version note + 1, updated_at := now eB\<rparr>"
  let ?dA = "d\<lparr>notes_table := map (\<lambda>r. if id_n r = id_n note then ?nA else r) (notes_table d)\<rparr>"
  let ?dB = "?dA\<lparr>notes_table := map (\<lambda>r. if id_n r = id_n note then ?nB else r) (notes_table ?dA)\<rparr>"
  have n: "note \<in> set (notes_table d)" "id_n note = k" "user_id note = id_u u"
    using query_note_Some[OF assms(1)] by auto
  have fA: "update_note_fetch d k updA u = Inr note" and fB: "update_note_fetch d k updB u = Inr note"
    using assms(1-3) by (simp_all add: update_note_fetch_def)
  have inA: "id_n note \<in> set (map id_n (notes_table d))" using n(1) by auto
  have cA: "update_note_commit eA d note updA = (?dA, Inr ?nA)"
    using assms(4) inA by (simp add: update_note_commit_def Let_def)
  have qA: "query_note ?dA k u = Some ?nA"
    unfolding query_note_def
    using find_map_replace[where P = "\<lambda>n. id_n n = k \<and> user_id n = id_u u"
        and xs = "notes_table d" and old = "note" and new = ?nA and Q = "\<lambda>r. id_n r = id_n note"]
      assms(1) n by (simp add: query_note_def)
  have inB: "id_n note \<in> set (map id_n (notes_table ?dA))"
    using query_note_Some[OF qA] by force
  have cB: "update_note_commit eB ?dA note updB = (?dB, Inr ?nB)"
    using assms(5) inB by (simp add: update_note_commit_def Let_def)
  have qB: "query_note ?dB k u = Some ?nB"
    unfolding query_note_def
    using find_map_replace[where P = "\<lambda>n. id_n n = k \<and> user_id n = id_u u"
        and xs = "notes_table ?dA" and old = ?nA and new = ?nB and Q = "\<lambda>r. id_n r = id_n note"]
      qA n by (simp add: query_note_def)
  have "interleaved_updates eA eB d k u updA updB = (?dB, Inr ?nA, Inr ?nB)"
    using fA fB cA cB by (simp add: interleaved_updates_def update_note_finish_def)
  then show ?thesis using qB by (intro exI[of _ ?dB] exI[of _ ?nA] exI[of _ ?nB]) simp
qed

text \<open>
  When the second update starts after the first has committed, the first succeeds and the
  second is refused; the stored note is the first one's.
\<close>

lemma second_update_with_same_version_conflicts:
  assumes "query_note d k u = Some old" and "nu_version p1 = version old"
    and "nu_version p2 = version old" and "commit_ok e1"
  shows "\<exists>d1 m. update_note e1 d k p1 u = (d1, Inr m)
    \<and> update_note e2 d1 k p2 u = (d1, Inl VersionConflict)
    \<and> get_note d1 k u = Inr m \<and> version m = version old + 1
    \<and> title m = nu_title p1 \<and> content m = nu_content p1"
proof -
  obtain d1 m where u: "update_note e1 d k p1 u = (d1, Inr m)"
    and m: "version m = version old + 1" "title m = nu_title p1" "content m = nu_content p1"
    and q: "query_note d1 k u = Some m"
    using update_note_ok[OF assms(1,2,4)] by blast
  have "update_note e2 d1 k p2 u = (d1, Inl VersionConflict)"
    using q m(1) assms(3) by (simp add: update_note_def)
  then show ?thesis using u m q by (simp add: get_note_def)
qed

section \<open>The claims\<close>

text \<open>
  Claim C1. Two update requests for the note with id 1 of \<open>db_x\<close>, both presenting its
  stored version 1, whose queries both run before either commit: neither is refused with
  \<open>VersionConflict\<close>. Both succeed and both return version 2; the stored note carries the
  second writer's title and content, and the first writer's update is lost.
\<close>

theorem lost_update:
  "interleaved_updates (env_at 20 2) (env_at 21 2) db_x 1 alice
     \<lparr>nu_title = ''Update 1'', nu_content = Some ''Content from update 1'', nu_version = 1\<rparr>
     \<lparr>nu_title = ''Update 2'', nu_content = Some ''Content from update 2'', nu_version = 1\<rparr>
   = (db_x\<lparr>notes_table := [note_x\<lparr>title := ''Update 2'', content := Some ''Content from update 2'',
                                   version := 2, updated_at := 21\<rparr>]\<rparr>,
      Inr (note_x\<lparr>title := ''Update 1'', content := Some ''Content from update 1'',
                  version := 2, updated_at := 20\<rparr>),
      Inr (note_x\<lparr>title := ''Update 2'', content := Some ''Content from update 2'',
                  version := 2, updated_at := 21\<rparr>))"
  by (simp add: interleaved_updates_def update_note_finish_def update_note_fetch_def
      update_note_commit_def query_note_def example_defs Let_def)

text \<open>
  Claim C2. A note is created with version 1, and every successful update adds exactly one
  to the version: the update that succeeds presented the stored version and returns and
  stores that version plus one. A client that updates a freshly created note \<open>n\<close> times,
  each time presenting the version the previous call returned, succeeds every time (the
  commits going through), the \<open>i\<close>-th call returns version \<open>i + 1\<close>, and the stored
  version at the end is \<open>n + 1\<close>. Over any list of requests that leaves the row in the
  table, its version never goes down and rises by at most one per request.
\<close>

theorem version_starts_at_one_and_increments:
  assumes "create_note e0 d0 note_data current_user = (d1, Inr n)"
    and "\<forall>p \<in> set ps. commit_ok (fst p)"
    and "update_note e d k note_update u = (d', Inr m)"
    and "wf_db dw" and "stored dw kw = Some a" and "\<forall>r \<in> set rs. \<not> creates_key kw r"
    and "stored (run dw rs) kw = Some b"
  shows "version n = 1
    \<and> (\<exists>d2 results. update_chain d1 current_user (id_n n) (version n) ps = (d2, results)
          \<and> length results = length ps
          \<and> (\<forall>i < length ps. \<exists>m'. results ! i = Inr m' \<and> version m' = int i + 2)
          \<and> (\<exists>m'. get_note d2 (id_n n) current_user = Inr m' \<and> version m' = int (length ps) + 1))
    \<and> (\<exists>old. get_note d k u = Inr old \<and> nu_version note_update = version old
          \<and> version m = version old + 1 \<and> get_note d' k u = Inr m)
    \<and> version a \<le> version b \<and> version b \<le> version a + int (length rs)"
proof -
  have v1: "version n = 1" using create_note_Inr[OF assms(1)] by simp
  have q1: "query_note d1 (id_n n) current_user = Some n"
    using create_then_query[OF assms(1)] by simp
  obtain d2 results where ch: "update_chain d1 current_user (id_n n) (version n) ps = (d2, results)"
    and len: "length results = length ps"
    and each: "\<forall>i < length ps. \<exists>m'. results ! i = Inr m' \<and> version m' = version n + int i + 1"
    and fin: "\<exists>m'. query_note d2 (id_n n) current_user = Some m'
               \<and> version m' = version n + int (length ps)"
    using update_chain_succeeds[OF q1 assms(2)] by blast
  have chain: "\<exists>d2 results. update_chain d1 current_user (id_n n) (version n) ps = (d2, results)
          \<and> length results = length ps
          \<and> (\<forall>i < length ps. \<exists>m'. results ! i = Inr m' \<and> version m' = int i + 2)
          \<and> (\<exists>m'. get_note d2 (id_n n) current_user = Inr m' \<and> version m' = int (length ps) + 1)"
    using ch len each fin v1 by (auto simp: get_note_def)
  from update_note_Inr[OF assms(3)] obtain old :: Note where
    q: "query_note d k u = Some old" and vo: "version old = nu_version note_update"
    and ok: "commit_ok e" and vm: "version m = version old + 1"
    by blast
  from update_note_ok[OF q vo[symmetric] ok] assms(3) have q': "query_note d' k u = Some m"
    by auto
  have one: "\<exists>old. get_note d k u = Inr old \<and> nu_version note_update = version old
          \<and> version m = version old + 1 \<and> get_note d' k u = Inr m"
    using q vo vm q' by (auto simp: get_note_def)
  show ?thesis
    using v1 chain one stored_run_version[OF assms(4-7)] by simp
qed

theorem version_starts_at_one_and_increments_witness:
  "create_note (env_at 10 1) db_empty \<lparr>nc_title = ''x'', nc_content = Some ''y''\<rparr> alice
     = (db_x, Inr note_x)
   \<and> commit_ok (env_at 20 2) \<and> commit_ok (env_at 30 2)
   \<and> update_note (env_at 20 2) db_x 1 \<lparr>nu_title = ''a'', nu_content = None, nu_version = 1\<rparr> alice
     = (db_x\<lparr>notes_table := [note_x\<lparr>title := ''a'', content := None, version := 2, updated_at := 20\<rparr>]\<rparr>,
        Inr (note_x\<lparr>title := ''a'', content := None, version := 2, updated_at := 20\<rparr>))
   \<and> wf_db db_x \<and> stored db_x 1 = Some note_x
   \<and> \<not> creates_key 1 (Update (env_at 20 2) alice 1 \<lparr>nu_title = ''a'', nu_content = None, nu_version = 1\<rparr>)
   \<and> stored (run db_x [Update (env_at 20 2) alice 1 \<lparr>nu_title = ''a'', nu_content = None, nu_version = 1\<rparr>]) 1
       = Some (note_x\<lparr>title := ''a'', content := None, version := 2, updated_at := 20\<rparr>)
   \<and> version note_x = 1
   \<and> update_chain db_x alice 1 1 [(env_at 20 2, ''a'', None), (env_at 30 2, ''b'', Some ''z'')]
     = (db_x\<lparr>notes_table := [note_x\<lparr>title := ''b'', content := Some ''z'', version := 3, updated_at := 30\<rparr>]\<rparr>,
        [Inr (note_x\<lparr>title := ''a'', content := None, version := 2, updated_at := 20\<rparr>),
         Inr (note_x\<lparr>title := ''b'', content := Some ''z'', version := 3, updated_at := 30\<rparr>)])"
proof -
  let ?upd = "\<lparr>nu_title = ''a'', nu_content = None, nu_version = 1\<rparr>"
  let ?a = "note_x\<lparr>title := ''a'', content := None, version := 2, updated_at := 20\<rparr>"
  let ?ps = "[(env_at 20 2, ''a'', None), (env_at 30 2, ''b'', Some ''z'')]"
  let ?rs = "[Update (env_at 20 2) alice 1 ?upd]"
  have h1: "create_note (env_at 10 1) db_empty \<lparr>nc_title = ''x'', nc_content = Some ''y''\<rparr> alice
     = (db_x, Inr note_x)"
    by (simp add: create_note_def example_defs Let_def)
  have h2: "\<forall>p \<in> set ?ps. commit_ok (fst p)" by (simp add: env_at_def)
  have h3: "update_note (env_at 20 2) db_x 1 ?upd alice = (db_x\<lparr>notes_table := [?a]\<rparr>, Inr ?a)"
    by (simp add: update_note_def query_note_def example_defs Let_def)
  have h4: "wf_db db_x" by (simp add: wf_db_def db_x_def)
  have h5: "stored db_x 1 = Some note_x" by (simp add: stored_def db_x_def note_x_def)
  have h6: "\<forall>r \<in> set ?rs. \<not> creates_key 1 r" by simp
  have h7: "stored (run db_x ?rs) 1 = Some ?a"
    by (simp add: h3) (simp add: stored_def note_x_def)
  have ch: "update_chain db_x alice 1 1 ?ps
     = (db_x\<lparr>notes_table := [note_x\<lparr>title := ''b'', content := Some ''z'', version := 3, updated_at := 30\<rparr>]\<rparr>,
        [Inr ?a, Inr (note_x\<lparr>title := ''b'', content := Some ''z'', version := 3, updated_at := 30\<rparr>)])"
    by (simp add: update_note_def query_note_def example_defs Let_def)
  have ok: "commit_ok (env_at 20 2)" "commit_ok (env_at 30 2)" by (simp_all add: env_at_def)
  show ?thesis
    using h1 ok h3 h4 h5 h7 ch
      version_starts_at_one_and_increments[OF h1 h2 h3 h4 h5 h6 h7]
    by simp
qed

text \<open>
  Claim C3. Let a note be owned by a user other than \<open>B\<close>, in a table with unique keys. The
  note is not in \<open>B\<close>'s list, nor is any row with its key; \<open>B\<close>'s get, update (with any
  payload, so any presented version) and delete on its key fail with \<open>NotFound\<close> and leave
  the database as it was. A key that is in no row gives the same results, and the
  responses sent to \<open>B\<close> are equal in both cases, also for a body that fails validation.
\<close>

theorem other_users_note_not_found:
  assumes "wf_db d" and "a \<in> set (notes_table d)" and "user_id a \<noteq> id_u B"
    and "stored d' k = None"
  shows "a \<notin> set (get_user_notes d B)
    \<and> id_n a \<notin> set (map id_n (get_user_notes d B))
    \<and> get_note d (id_n a) B = Inl NotFound
    \<and> update_note e d (id_n a) note_update B = (d, Inl NotFound)
    \<and> delete_note e d (id_n a) B = (d, Inl NotFound)
    \<and> get_note d' k B = Inl NotFound
    \<and> update_note e d' k note_update B = (d', Inl NotFound)
    \<and> delete_note e d' k B = (d', Inl NotFound)
    \<and> route_get_note d (id_n a) B = route_get_note d' k B
    \<and> snd (route_update_note e d (id_n a) B b) = snd (route_update_note e d' k B b)
    \<and> snd (route_delete_note e d (id_n a) B) = snd (route_delete_note e d' k B)"
proof -
  have q: "query_note d (id_n a) B = None" using assms(1-3) by (rule query_note_other_owner)
  have q': "query_note d' k B = None" using assms(4) by (rule query_note_None_absent)
  have uniq: "\<And>n. n \<in> set (notes_table d) \<Longrightarrow> id_n n = id_n a \<Longrightarrow> n = a"
    using assms(1,2) by (blast intro: wf_unique)
  have l: "a \<notin> set (get_user_notes d B)" "id_n a \<notin> set (map id_n (get_user_notes d B))"
    using assms(3) uniq by (auto simp: get_user_notes_def)
  show ?thesis
    using l not_found_of_query_None[OF q] not_found_of_query_None[OF q']
      route_update_not_found[OF q] route_update_not_found[OF q']
    by (simp add: route_get_note_def route_delete_note_def)
qed

theorem other_users_note_not_found_witness:
  "wf_db db_x \<and> note_x \<in> set (notes_table db_x) \<and> user_id note_x \<noteq> id_u bob
   \<and> stored db_x 99999 = None
   \<and> get_user_notes db_x bob = []
   \<and> get_note db_x 1 bob = Inl NotFound
   \<and> update_note (env_at 20 2) db_x 1
       \<lparr>nu_title = ''Hacked'', nu_content = Some ''Hacked content'', nu_version = 1\<rparr> bob
       = (db_x, Inl NotFound)
   \<and> delete_note (env_at 20 2) db_x 1 bob = (db_x, Inl NotFound)
   \<and> route_get_note db_x 1 bob = route_get_note db_x 99999 bob"
proof -
  have h: "wf_db db_x" "note_x \<in> set (notes_table db_x)" "user_id note_x \<noteq> id_u bob"
    "stored db_x 99999 = None"
    by (simp_all add: example_defs wf_db_def stored_def)
  have l: "get_user_notes db_x bob = []" by (simp add: example_defs get_user_notes_def)
  have i: "id_n note_x = 1" by (simp add: note_x_def)
  show ?thesis
    using h l other_users_note_not_found[OF h, of "env_at 20 2"
        "\<lparr>nu_title = ''Hacked'', nu_content = Some ''Hacked content'', nu_version = 1\<rparr>"]
    by (simp add: i)
qed

text \<open>
  Claim C4. When the caller owns the note and presents a version other than the stored
  one, the update fails with \<open>VersionConflict\<close> (status 409) and the database is returned
  as it was, so a get afterwards gives the note with its prior title, content, version and
  timestamps. Presenting the stored version instead succeeds when the commit goes through.
\<close>

theorem version_conflict_leaves_note_unchanged:
  assumes "query_note d note_id current_user = Some note"
    and "nu_version note_update \<noteq> version note"
  shows "update_note e d note_id note_update current_user = (d, Inl VersionConflict)
    \<and> status_code VersionConflict = 409
    \<and> get_note (fst (update_note e d note_id note_update current_user)) note_id current_user
        = Inr note
    \<and> (\<exists>d' m. update_note (e\<lparr>commit_ok := True\<rparr>) d note_id
          (note_update\<lparr>nu_version := version note\<rparr>) current_user = (d', Inr m)
        \<and> version m = version note + 1)"
proof -
  have u: "update_note e d note_id note_update current_user = (d, Inl VersionConflict)"
    using assms by (simp add: update_note_def)
  have g: "get_note d note_id current_user = Inr note"
    using assms(1) by (simp add: get_note_def)
  have r: "\<exists>d' m. update_note (e\<lparr>commit_ok := True\<rparr>) d note_id
          (note_update\<lparr>nu_version := version note\<rparr>) current_user = (d', Inr m)
        \<and> version m = version note + 1"
    using update_note_ok[OF assms(1), of "note_update\<lparr>nu_version := version note\<rparr>"
        "e\<lparr>commit_ok := True\<rparr>"] by auto
  show ?thesis using u g r by (simp add: VersionConflict_def HTTP_409_CONFLICT_def)
qed

theorem version_conflict_leaves_note_unchanged_witness:
  "query_note db_x 1 alice = Some note_x
   \<and> nu_version \<lparr>nu_title = ''Update 2'', nu_content = Some ''Content from update 2'', nu_version = 0\<rparr>
       \<noteq> version note_x
   \<and> update_note (env_at 20 2) db_x 1
       \<lparr>nu_title = ''Update 2'', nu_content = Some ''Content from update 2'', nu_version = 0\<rparr> alice
     = (db_x, Inl VersionConflict)
   \<and> get_note db_x 1 alice = Inr note_x"
proof -
  have h: "query_note db_x 1 alice = Some note_x"
    "nu_version \<lparr>nu_title = ''Update 2'', nu_content = Some ''Content from update 2'', nu_version = 0\<rparr>
       \<noteq> version note_x"
    by (simp_all add: query_note_def example_defs)
  show ?thesis
    using h version_conflict_leaves_note_unchanged[OF h, of "env_at 20 2"]
    by auto
qed

text \<open>
  Claim C5. A create request whose title is empty fails validation before the handler runs:
  the database is unchanged and the response carries the error code \<open>VALIDATION_ERROR\<close>.
  The status code that \<open>validation_exception_handler\<close> sends is 400.
\<close>

theorem empty_title_is_answered_with_400:
  "route_create_note e d current_user
     \<lparr>title_field = Some '''', content_field = Some (Some ''Valid content''),
      version_field = None, extra_fields = []\<rparr>
   = (d, JSONResponse 400 (ErrorContent ''Validation error'' (Some ''VALIDATION_ERROR'')
           (Some [(''body -> title'', string_too_short)])))"
  by (simp add: route_create_note_def validate_defs handler_defs)

text \<open>
  Claim C6. For a title of 1 to 200 characters and any content, create succeeds when the
  storage layer assigns an unused key and commits; a get by the same user on the returned
  id then yields the very note that create returned, with version 1 and the title and
  content of the input. A create request whose title is empty or longer than 200
  characters is answered with a validation error and leaves the database unchanged.
\<close>

theorem create_then_get_roundtrip:
  assumes "1 \<le> length t" and "length t \<le> 200"
    and "commit_ok e" and "assigned_id e \<notin> set (map id_n (notes_table d))"
    and "length t' < 1 \<or> 200 < length t'"
  shows "\<exists>d' n.
      create_note e d \<lparr>nc_title = t, nc_content = c\<rparr> current_user = (d', Inr n)
    \<and> route_create_note e d current_user
        \<lparr>title_field = Some t, content_field = Some c, version_field = None, extra_fields = []\<rparr>
        = (d', JSONResponse 201 (NoteContent n))
    \<and> get_note d' (id_n n) current_user = Inr n
    \<and> route_get_note d' (id_n n) current_user = JSONResponse 200 (NoteContent n)
    \<and> version n = 1 \<and> title n = t \<and> content n = c
    \<and> fst (route_create_note e d current_user
        \<lparr>title_field = Some t', content_field = Some c, version_field = None, extra_fields = []\<rparr>) = d
    \<and> err_code (payload (snd (route_create_note e d current_user
        \<lparr>title_field = Some t', content_field = Some c, version_field = None, extra_fields = []\<rparr>)))
        = Some ''VALIDATION_ERROR''"
proof -
  let ?n = "\<lparr>id_n = assigned_id e, title = t, content = c, user_id = id_u current_user,
             version = 1, created_at = now e, updated_at = now e\<rparr>"
  let ?d' = "d\<lparr>notes_table := notes_table d @ [?n]\<rparr>"
  have c: "create_note e d \<lparr>nc_title = t, nc_content = c\<rparr> current_user = (?d', Inr ?n)"
    using assms(3,4) by (simp add: create_note_def Let_def)
  have r: "route_create_note e d current_user
        \<lparr>title_field = Some t, content_field = Some c, version_field = None, extra_fields = []\<rparr>
        = (?d', JSONResponse 201 (NoteContent ?n))"
    using assms(1,2) c by (auto simp: route_create_note_def validate_defs handler_defs)
  have q: "query_note ?d' (id_n ?n) current_user = Some ?n"
    using create_then_query[OF c] by simp
  have g: "get_note ?d' (id_n ?n) current_user = Inr ?n"
    using q by (simp add: get_note_def)
  have rg: "route_get_note ?d' (id_n ?n) current_user = JSONResponse 200 (NoteContent ?n)"
    using g by (simp add: route_get_note_def respond_def)
  have bad: "route_create_note e d current_user
        \<lparr>title_field = Some t', content_field = Some c, version_field = None, extra_fields = []\<rparr>
      = (d, validation_exception_handler
           [([''body'', ''title''], if length t' < 1 then string_too_short else string_too_long)])"
    using assms(5) by (auto simp: route_create_note_def validate_defs)
  have bad': "fst (route_create_note e d current_user
        \<lparr>title_field = Some t', content_field = Some c, version_field = None, extra_fields = []\<rparr>) = d"
    "err_code (payload (snd (route_create_note e d current_user
        \<lparr>title_field = Some t', content_field = Some c, version_field = None, extra_fields = []\<rparr>)))
        = Some ''VALIDATION_ERROR''"
    unfolding bad by (simp_all add: validation_exception_handler_def)
  show ?thesis
    using c r g rg bad' by (intro exI[of _ ?d'] exI[of _ ?n]) simp
qed

theorem create_then_get_roundtrip_witness:
  "1 \<le> length ''x'' \<and> length ''x'' \<le> 200 \<and> commit_ok (env_at 10 1)
   \<and> assigned_id (env_at 10 1) \<notin> set (map id_n (notes_table db_empty))
   \<and> (length '''' < 1 \<or> 200 < length '''')
   \<and> create_note (env_at 10 1) db_empty \<lparr>nc_title = ''x'', nc_content = Some ''y''\<rparr> alice
       = (db_x, Inr note_x)
   \<and> get_note db_x 1 alice = Inr note_x
   \<and> fst (route_create_note (env_at 10 1) db_empty alice
        \<lparr>title_field = Some '''', content_field = Some (Some ''y''), version_field = None,
         extra_fields = []\<rparr>) = db_empty"
proof -
  have h: "1 \<le> length ''x''" "length ''x'' \<le> 200" "commit_ok (env_at 10 1)"
    "assigned_id (env_at 10 1) \<notin> set (map id_n (notes_table db_empty))"
    "length '''' < 1 \<or> 200 < length ''''"
    by (simp_all add: example_defs)
  have c: "create_note (env_at 10 1) db_empty \<lparr>nc_title = ''x'', nc_content = Some ''y''\<rparr> alice
       = (db_x, Inr note_x)"
    by (simp add: create_note_def example_defs Let_def)
  have g: "get_note db_x 1 alice = Inr note_x"
    by (simp add: get_note_def query_note_def example_defs)
  show ?thesis
    using h c g create_then_get_roundtrip[OF h, of "Some ''y''" alice]
    by auto
qed

text \<open>
  Claim C7. A login with a username that is in no row and a login with an existing
  username whose password does not verify both raise the same \<open>Unauthorized\<close> exception,
  and the two responses are one and the same: status 401, the detail
  \<open>Incorrect username or password\<close>, no error code and nothing else.
\<close>

theorem login_failures_identical:
  assumes "find (\<lambda>u. username u = ul_username c1) (users_table d) = None"
    and "find (\<lambda>u. username u = ul_username c2) (users_table d) = Some user"
    and "\<not> verify_password (ul_password c2) (password_hash user)"
  shows "login_user verify_password create_access_token d c1 = Inl Unauthorized
    \<and> login_user verify_password create_access_token d c2 = Inl Unauthorized
    \<and> route_login_user verify_password create_access_token d c1
        = route_login_user verify_password create_access_token d c2
    \<and> route_login_user verify_password create_access_token d c2
        = JSONResponse 401 (ErrorContent ''Incorrect username or password'' None None)"
  using assms by (simp add: login_user_def route_login_user_def handler_defs)

theorem login_failures_identical_witness:
  "find (\<lambda>u. username u = ul_username \<lparr>ul_username = ''nonexistent'', ul_password = ''secret1''\<rparr>)
      (users_table db_x) = None
   \<and> find (\<lambda>u. username u = ul_username \<lparr>ul_username = ''alice'', ul_password = ''wrongpass''\<rparr>)
      (users_table db_x) = Some alice
   \<and> \<not> verify_example (ul_password \<lparr>ul_username = ''alice'', ul_password = ''wrongpass''\<rparr>)
        (password_hash alice)
   \<and> route_login_user verify_example token_example db_x
        \<lparr>ul_username = ''nonexistent'', ul_password = ''secret1''\<rparr>
      = route_login_user verify_example token_example db_x
        \<lparr>ul_username = ''alice'', ul_password = ''wrongpass''\<rparr>
   \<and> login_user verify_example token_example db_x \<lparr>ul_username = ''alice'', ul_password = ''secret1''\<rparr>
      = Inr \<lparr>access_token = ''token-alice'', token_type = ''bearer''\<rparr>"
proof -
  have h1: "find (\<lambda>u. username u = ul_username \<lparr>ul_username = ''nonexistent'', ul_password = ''secret1''\<rparr>)
      (users_table db_x) = None"
    by (simp add: example_defs)
  have h2: "find (\<lambda>u. username u = ul_username \<lparr>ul_username = ''alice'', ul_password = ''wrongpass''\<rparr>)
      (users_table db_x) = Some alice"
    by (simp add: example_defs)
  have h3: "\<not> verify_example (ul_password \<lparr>ul_username = ''alice'', ul_password = ''wrongpass''\<rparr>)
        (password_hash alice)"
    by (simp add: example_defs)
  have ok: "login_user verify_example token_example db_x \<lparr>ul_username = ''alice'', ul_password = ''secret1''\<rparr>
      = Inr \<lparr>access_token = ''token-alice'', token_type = ''bearer''\<rparr>"
    by (simp add: login_user_def example_defs)
  show ?thesis
    using h1 h2 h3 ok
      login_failures_identical[where ?c1.0 = "\<lparr>ul_username = ''nonexistent'', ul_password = ''secret1''\<rparr>"
        and ?c2.0 = "\<lparr>ul_username = ''alice'', ul_password = ''wrongpass''\<rparr>"
        and d = db_x and user = alice and verify_password = verify_example
        and create_access_token = token_example]
    by simp
qed

text \<open>
  Claim C8, as the code has it. Delete takes no version: when the caller owns the note and
  the commit goes through, it succeeds whatever the stored version is and removes every
  row with that key. After it, get, update and delete on that id by any user fail with
  \<open>NotFound\<close> and change nothing, for as long as no later create is assigned that key.
\<close>

theorem delete_is_unconditional_and_final:
  assumes "query_note d note_id current_user = Some note" and "commit_ok e"
    and "\<forall>r \<in> set rs. \<not> creates_key note_id r"
  shows "\<exists>d'. delete_note e d note_id current_user = (d', Inr ''Note deleted successfully'')
    \<and> notes_table d' = filter (\<lambda>r. id_n r \<noteq> note_id) (notes_table d)
    \<and> stored (run d' rs) note_id = None
    \<and> get_note (run d' rs) note_id u = Inl NotFound
    \<and> update_note e' (run d' rs) note_id note_update u = (run d' rs, Inl NotFound)
    \<and> delete_note e' (run d' rs) note_id u = (run d' rs, Inl NotFound)"
proof -
  let ?d' = "d\<lparr>notes_table := filter (\<lambda>r. id_n r \<noteq> note_id) (notes_table d)\<rparr>"
  have k: "id_n note = note_id" using query_note_Some[OF assms(1)] by simp
  have del: "delete_note e d note_id current_user = (?d', Inr ''Note deleted successfully'')"
    using assms(1,2) k by (simp add: delete_note_def)
  have "stored ?d' note_id = None" by (auto simp: stored_None_iff)
  then have gone: "stored (run ?d' rs) note_id = None"
    using assms(3) by (rule stored_run_absent)
  then have q: "query_note (run ?d' rs) note_id u = None" by (rule query_note_None_absent)
  show ?thesis
    using del gone not_found_of_query_None[OF q] by (intro exI[of _ ?d']) simp
qed

theorem delete_is_unconditional_and_final_witness:
  "query_note db_x 1 alice = Some note_x \<and> commit_ok (env_at 20 2)
   \<and> \<not> creates_key 1 (Create (env_at 30 2) bob \<lparr>nc_title = ''b'', nc_content = None\<rparr>)
   \<and> \<not> creates_key 1 (Get alice 1)
   \<and> delete_note (env_at 20 2) db_x 1 alice = (db_empty, Inr ''Note deleted successfully'')
   \<and> get_note (run db_empty [Create (env_at 30 2) bob \<lparr>nc_title = ''b'', nc_content = None\<rparr>,
         Get alice 1]) 1 alice = Inl NotFound"
proof -
  let ?rs = "[Create (env_at 30 2) bob \<lparr>nc_title = ''b'', nc_content = None\<rparr>, Get alice 1]"
  have h: "query_note db_x 1 alice = Some note_x" "commit_ok (env_at 20 2)"
    "\<forall>r \<in> set ?rs. \<not> creates_key 1 r"
    by (simp_all add: query_note_def example_defs)
  have del: "delete_note (env_at 20 2) db_x 1 alice = (db_empty, Inr ''Note deleted successfully'')"
    by (simp add: delete_note_def query_note_def example_defs)
  show ?thesis
    using h del delete_is_unconditional_and_final[OF h, of alice]
    by auto
qed

text \<open>
  The claim C8 as stated fails when the key comes back. The notes table declares its key
  without autoincrement, so the store may assign the key of a deleted row to the next
  insert: after the delete of note 1 and a create that is assigned key 1, a get on id 1 by
  the new owner returns a note.
\<close>

theorem get_succeeds_after_delete_and_create:
  "delete_note (env_at 20 2) db_x 1 alice = (db_empty, Inr ''Note deleted successfully'')
   \<and> create_note (env_at 30 1) db_empty \<lparr>nc_title = ''b'', nc_content = None\<rparr> bob
     = (db_empty\<lparr>notes_table := [\<lparr>id_n = 1, title = ''b'', content = None, user_id = 2,
            version = 1, created_at = 30, updated_at = 30\<rparr>]\<rparr>,
        Inr \<lparr>id_n = 1, title = ''b'', content = None, user_id = 2,
            version = 1, created_at = 30, updated_at = 30\<rparr>)
   \<and> get_note (run db_empty [Create (env_at 30 1) bob \<lparr>nc_title = ''b'', nc_content = None\<rparr>]) 1 bob
     = Inr \<lparr>id_n = 1, title = ''b'', content = None, user_id = 2,
            version = 1, created_at = 30, updated_at = 30\<rparr>"
  by (simp add: delete_note_def create_note_def get_note_def query_note_def example_defs Let_def)

text \<open>
  Claim C9, as the code has it. An update body must contain \<open>title\<close> and \<open>version\<close>: a body
  that omits either is answered with a validation error and the database is unchanged.
  The key \<open>content\<close> may be omitted and then defaults to null: a body with a valid title,
  a version and no \<open>content\<close> validates to an update whose content is \<open>None\<close>, the request
  is handled as \<open>update_note\<close> with that payload, and for every body, omitting \<open>content\<close>
  gives the same outcome as sending \<^verbatim>\<open>"content": null\<close>.
\<close>

theorem update_requires_title_and_version:
  assumes "title_field b = None \<or> version_field b = None"
    and "1 \<le> length t" and "length t \<le> 200"
  shows "fst (route_update_note e d note_id current_user b) = d
    \<and> status (snd (route_update_note e d note_id current_user b)) = 400
    \<and> err_code (payload (snd (route_update_note e d note_id current_user b)))
        = Some ''VALIDATION_ERROR''
    \<and> NoteUpdate_validate
        \<lparr>title_field = Some t, content_field = None, version_field = Some v, extra_fields = x\<rparr>
        = Inr \<lparr>nu_title = t, nu_content = None, nu_version = v\<rparr>
    \<and> route_update_note e' d' k' u'
        \<lparr>title_field = Some t, content_field = None, version_field = Some v, extra_fields = x\<rparr>
        = (fst (update_note e' d' k' \<lparr>nu_title = t, nu_content = None, nu_version = v\<rparr> u'),
           respond 200 NoteContent
             (snd (update_note e' d' k' \<lparr>nu_title = t, nu_content = None, nu_version = v\<rparr> u')))
    \<and> route_update_note e' d' k' u' (b'\<lparr>content_field := None\<rparr>)
        = route_update_note e' d' k' u' (b'\<lparr>content_field := Some None\<rparr>)"
proof -
  have rej: "fst (route_update_note e d note_id current_user b) = d
    \<and> status (snd (route_update_note e d note_id current_user b)) = 400
    \<and> err_code (payload (snd (route_update_note e d note_id current_user b)))
        = Some ''VALIDATION_ERROR''"
    using assms(1)
    by (auto simp: route_update_note_def validate_defs handler_defs split: option.splits)
  have v: "NoteUpdate_validate
        \<lparr>title_field = Some t, content_field = None, version_field = Some v, extra_fields = x\<rparr>
        = Inr \<lparr>nu_title = t, nu_content = None, nu_version = v\<rparr>"
    using assms(2,3) by (auto simp: validate_defs)
  have r: "route_update_note e' d' k' u'
        \<lparr>title_field = Some t, content_field = None, version_field = Some v, extra_fields = x\<rparr>
        = (fst (update_note e' d' k' \<lparr>nu_title = t, nu_content = None, nu_version = v\<rparr> u'),
           respond 200 NoteContent
             (snd (update_note e' d' k' \<lparr>nu_title = t, nu_content = None, nu_version = v\<rparr> u')))"
    by (simp add: route_update_note_def v split: prod.splits)
  have g: "route_update_note e' d' k' u' (b'\<lparr>content_field := None\<rparr>)
        = route_update_note e' d' k' u' (b'\<lparr>content_field := Some None\<rparr>)"
    by (simp add: route_update_note_def NoteUpdate_validate_def validate_content_def
        split: sum.splits)
  show ?thesis using rej v r g by simp
qed

theorem update_requires_title_and_version_witness:
  "(title_field \<lparr>title_field = Some ''t'', content_field = Some (Some ''c''), version_field = None,
        extra_fields = []\<rparr> = None
    \<or> version_field \<lparr>title_field = Some ''t'', content_field = Some (Some ''c''), version_field = None,
        extra_fields = []\<rparr> = None)
   \<and> 1 \<le> length ''t'' \<and> length ''t'' \<le> 200
   \<and> route_update_note (env_at 20 2) db_x 1 alice
       \<lparr>title_field = Some ''t'', content_field = Some (Some ''c''), version_field = None,
        extra_fields = []\<rparr>
     = (db_x, JSONResponse 400 (ErrorContent ''Validation error'' (Some ''VALIDATION_ERROR'')
           (Some [(''body -> version'', missing)])))
   \<and> NoteUpdate_validate
       \<lparr>title_field = Some ''t'', content_field = None, version_field = Some 1, extra_fields = []\<rparr>
     = Inr \<lparr>nu_title = ''t'', nu_content = None, nu_version = 1\<rparr>"
proof -
  let ?b = "\<lparr>title_field = Some ''t'', content_field = Some (Some ''c''), version_field = None,
        extra_fields = []\<rparr>"
  have h: "title_field ?b = None \<or> version_field ?b = None" "1 \<le> length ''t''"
    "length ''t'' \<le> 200"
    by simp_all
  have r: "snd (route_update_note (env_at 20 2) db_x 1 alice ?b)
     = JSONResponse 400 (ErrorContent ''Validation error'' (Some ''VALIDATION_ERROR'')
           (Some [(''body -> version'', missing)]))"
    by (simp add: route_update_note_def validate_defs handler_defs)
  have f: "fst (route_update_note (env_at 20 2) db_x 1 alice ?b) = db_x"
    and v: "NoteUpdate_validate
       \<lparr>title_field = Some ''t'', content_field = None, version_field = Some 1, extra_fields = []\<rparr>
     = Inr \<lparr>nu_title = ''t'', nu_content = None, nu_version = 1\<rparr>"
    using update_requires_title_and_version[OF h, where e = "env_at 20 2" and d = db_x
        and note_id = 1 and current_user = alice and v = 1 and x = "[]"]
    by simp_all
  have "route_update_note (env_at 20 2) db_x 1 alice ?b
     = (db_x, JSONResponse 400 (ErrorContent ''Validation error'' (Some ''VALIDATION_ERROR'')
           (Some [(''body -> version'', missing)])))"
    using f r by (metis prod.collapse)
  then show ?thesis using h v by simp
qed

text \<open>
  The claim C9 as stated fails for \<open>content\<close>: this update body has no \<open>content\<close> key, and
  the request is answered with 200 and changes the note.
\<close>

theorem update_without_content_is_accepted:
  "content_field \<lparr>title_field = Some ''t'', content_field = None, version_field = Some 1,
       extra_fields = []\<rparr> = None
   \<and> route_update_note (env_at 20 2) db_x 1 alice
       \<lparr>title_field = Some ''t'', content_field = None, version_field = Some 1, extra_fields = []\<rparr>
     = (db_x\<lparr>notes_table := [note_x\<lparr>title := ''t'', content := None, version := 2, updated_at := 20\<rparr>]\<rparr>,
        JSONResponse 200
          (NoteContent (note_x\<lparr>title := ''t'', content := None, version := 2, updated_at := 20\<rparr>)))
   \<and> db_x\<lparr>notes_table := [note_x\<lparr>title := ''t'', content := None, version := 2, updated_at := 20\<rparr>]\<rparr>
       \<noteq> db_x"
  by (simp add: route_update_note_def update_note_def query_note_def validate_defs handler_defs
      example_defs Let_def)

text \<open>
  Claim C10. Whatever the body of a create request, if a note is created its owner is the
  authenticated caller, its version is 1 and its id is the key the storage layer assigned;
  the note is the one that \<open>create_note\<close> builds from the body's title and content alone,
  and the \<open>version\<close> key and every undeclared key of the body change nothing in the outcome.
\<close>

theorem created_note_owner_and_version:
  assumes "route_create_note e d current_user b = (d', JSONResponse 201 (NoteContent n))"
  shows "user_id n = id_u current_user \<and> version n = 1 \<and> id_n n = assigned_id e
    \<and> title_field b = Some (title n) \<and> content n = validate_content (content_field b)
    \<and> create_note e d \<lparr>nc_title = title n, nc_content = content n\<rparr> current_user = (d', Inr n)
    \<and> stored d' (id_n n) = Some n
    \<and> route_create_note e d current_user (b\<lparr>version_field := v, extra_fields := x\<rparr>)
        = route_create_note e d current_user b"
proof -
  have indep: "route_create_note e d current_user (b\<lparr>version_field := v, extra_fields := x\<rparr>)
        = route_create_note e d current_user b"
    by (simp add: route_create_note_def NoteCreate_validate_def split: sum.splits)
  from assms obtain nd where v: "NoteCreate_validate b = Inr nd"
    and c: "create_note e d nd current_user = (d', Inr n)"
    by (auto simp: route_create_note_def handler_defs split: sum.splits prod.splits)
  from v have nd: "title_field b = Some (nc_title nd)" "nc_content nd = validate_content (content_field b)"
    by (auto simp: NoteCreate_validate_def validate_title_def split: option.splits if_splits)
  from create_note_Inr[OF c] have n: "user_id n = id_u current_user" "version n = 1"
    "id_n n = assigned_id e" "title n = nc_title nd" "content n = nc_content nd" by auto
  have "nd = \<lparr>nc_title = title n, nc_content = content n\<rparr>" using n by simp
  with c have c': "create_note e d \<lparr>nc_title = title n, nc_content = content n\<rparr> current_user = (d', Inr n)"
    by simp
  show ?thesis using indep nd n c' create_then_query[OF c] by simp
qed

theorem created_note_owner_and_version_witness:
  "route_create_note (env_at 20 2) db_x bob
     \<lparr>title_field = Some ''mine'', content_field = None, version_field = Some 7,
      extra_fields = [(''user_id'', ''1''), (''id'', ''1'')]\<rparr>
   = (db_x\<lparr>notes_table := [note_x, \<lparr>id_n = 2, title = ''mine'', content = None, user_id = 2,
          version = 1, created_at = 20, updated_at = 20\<rparr>]\<rparr>,
      JSONResponse 201 (NoteContent \<lparr>id_n = 2, title = ''mine'', content = None, user_id = 2,
          version = 1, created_at = 20, updated_at = 20\<rparr>))
   \<and> user_id \<lparr>id_n = 2, title = ''mine'', content = None, user_id = 2,
          version = 1, created_at = 20, updated_at = 20\<rparr> = id_u bob
   \<and> version \<lparr>id_n = 2, title = ''mine'', content = None, user_id = 2,
          version = (1::int), created_at = 20, updated_at = 20\<rparr> = 1"
proof -
  let ?b = "\<lparr>title_field = Some ''mine'', content_field = None, version_field = Some 7,
      extra_fields = [(''user_id'', ''1''), (''id'', ''1'')]\<rparr>"
  let ?n = "\<lparr>id_n = 2, title = ''mine'', content = None, user_id = 2,
          version = 1, created_at = 20, updated_at = 20\<rparr>"
  have h: "route_create_note (env_at 20 2) db_x bob ?b
     = (db_x\<lparr>notes_table := [note_x, ?n]\<rparr>, JSONResponse 201 (NoteContent ?n))"
    by (simp add: route_create_note_def create_note_def validate_defs handler_defs example_defs Let_def)
  show ?thesis using h created_note_owner_and_version[OF h] by simp
qed

end
